theory Spec2Isabelle
  imports Main
begin

section \<open>Python strings\<close>

text \<open>
  A Python \<open>str\<close> is a sequence of Unicode code points; the list file is read as UTF-8,
  so any code point can occur in a username. A string is modelled as the list of its
  code points, and the string literals of the source are written with \<open>ascii\<close>.
\<close>

type_synonym pystr = "nat list"

definition ascii :: "string \<Rightarrow> pystr" where
  "ascii cs = map of_char cs"

text \<open>
  \<open>str.strip()\<close> without argument removes the characters for which \<open>str.isspace\<close>
  holds: TAB..CR, FS..US, space, NEL, NBSP, U+1680, U+2000..U+200A, U+2028, U+2029,
  U+202F, U+205F and U+3000.
\<close>

definition is_space :: "nat \<Rightarrow> bool" where
  "is_space c =
     (c \<in> set [9, 10, 11, 12, 13, 28, 29, 30, 31, 32, 133, 160, 5760,
                8232, 8233, 8239, 8287, 12288]
      \<or> (8192 \<le> c \<and> c \<le> 8202))"

definition lstrip :: "(nat \<Rightarrow> bool) \<Rightarrow> pystr \<Rightarrow> pystr" where
  "lstrip P u = dropWhile P u"

definition rstrip :: "(nat \<Rightarrow> bool) \<Rightarrow> pystr \<Rightarrow> pystr" where
  "rstrip P u = rev (dropWhile P (rev u))"

definition strip :: "pystr \<Rightarrow> pystr" where
  \<comment> \<open>\<open>u.strip()\<close>\<close>
  "strip u = rstrip is_space (lstrip is_space u)"

definition lstrip_chars :: "pystr \<Rightarrow> pystr \<Rightarrow> pystr" where
  \<comment> \<open>\<open>u.lstrip(chars)\<close>: drops every leading character that occurs in \<open>chars\<close>\<close>
  "lstrip_chars chars u = lstrip (\<lambda>c. c \<in> set chars) u"

fun startswith :: "pystr \<Rightarrow> pystr \<Rightarrow> bool" where
  "startswith u [] = True"
| "startswith [] (p # ps) = False"
| "startswith (c # cs) (p # ps) = (c = p \<and> startswith cs ps)"

fun str_in :: "pystr \<Rightarrow> pystr \<Rightarrow> bool" where
  \<comment> \<open>\<open>needle in u\<close>\<close>
  "str_in needle [] = (needle = [])"
| "str_in needle (c # cs) = (startswith (c # cs) needle \<or> str_in needle cs)"

section \<open>The list file\<close>

text \<open>
  The value \<open>json.load\<close> returns. A dict is listed by its items (keys are unique after
  parsing); numbers carry an integer, the loader only looks at the type of an item.
\<close>

datatype json =
    JNull
  | JBool bool
  | JNum int
  | JStr pystr
  | JList "json list"
  | JDict "(pystr \<times> json) list"

fun isinstance_str :: "json \<Rightarrow> bool" where
  "isinstance_str (JStr u) = True"
| "isinstance_str _ = False"

fun isinstance_dict :: "json \<Rightarrow> bool" where
  "isinstance_dict (JDict kvs) = True"
| "isinstance_dict _ = False"

text \<open>
  The ways \<open>follow_then_unfollow_loop\<close> leaves before the follow pass. Each prints its
  message, closes context and browser, and returns:
  \<^item> \<open>ListFileNotFound\<close>: "[ERROR] Followers list file not found"
  \<^item> \<open>ListEmpty\<close>: "[INFO] The follower list is empty (0 entries). Exiting."
  \<^item> \<open>NoUsernameField\<close>: "[ERROR] followers.json contains objects but none had a
    'username' string field. Exiting."
  \<^item> \<open>NoUsernamesParsed\<close>: "[ERROR] Could not parse any usernames from followers.json."
  \<^item> \<open>NotAnArray\<close>: "[ERROR] followers.json is not an array. ..."
  \<^item> \<open>LoadFailed\<close>: "[ERROR] Failed to load/parse list file"
\<close>

datatype load_exit =
    ListFileNotFound
  | ListEmpty
  | NoUsernameField
  | NoUsernamesParsed
  | NotAnArray
  | LoadFailed

definition normalize_username :: "pystr \<Rightarrow> pystr" where
  \<comment> \<open>the expression \<open>u.strip().lstrip("@")\<close>, used by all three branches\<close>
  "normalize_username u = lstrip_chars (ascii ''@'') (strip u)"

fun str_items :: "json \<Rightarrow> pystr list" where
  "str_items (JStr u) = [u]"
| "str_items _ = []"

fun dict_username :: "json \<Rightarrow> pystr list" where
  \<comment> \<open>\<open>"username" in obj and isinstance(obj["username"], str)\<close>\<close>
  "dict_username (JDict kvs) =
     (case map_of kvs (ascii ''username'') of
        Some (JStr u) \<Rightarrow> [normalize_username u]
      | _ \<Rightarrow> [])"
| "dict_username _ = []"

fun coerce_item :: "json \<Rightarrow> pystr list" where
  \<comment> \<open>the mixed branch: strings and dicts with a string \<open>username\<close> are kept\<close>
  "coerce_item (JStr u) = [normalize_username u]"
| "coerce_item (JDict kvs) = dict_username (JDict kvs)"
| "coerce_item _ = []"

fun dict_fromkeys :: "'a list \<Rightarrow> 'a list \<Rightarrow> 'a list" where
  \<comment> \<open>inserting the keys one by one into a dict whose keys so far are \<open>keys\<close>\<close>
  "dict_fromkeys keys [] = keys"
| "dict_fromkeys keys (x # xs) =
     dict_fromkeys (if x \<in> set keys then keys else keys @ [x]) xs"

definition fromkeys :: "'a list \<Rightarrow> 'a list" where
  \<comment> \<open>\<open>list(dict.fromkeys(xs))\<close>\<close>
  "fromkeys xs = dict_fromkeys [] xs"

definition parse_usernames :: "json \<Rightarrow> load_exit + pystr list" where
  "parse_usernames data_in =
     (case data_in of
        JList xs \<Rightarrow>
          if length xs = 0 then Inl ListEmpty
          else if list_all isinstance_str xs then
            Inr (map normalize_username (filter (\<lambda>u. strip u \<noteq> []) (concat (map str_items xs))))
          else if list_all isinstance_dict xs then
            (let usernames = concat (map dict_username xs);
                 usernames = filter (\<lambda>u. u \<noteq> []) usernames
             in if length usernames = 0 then Inl NoUsernameField else Inr usernames)
          else
            (let usernames = concat (map coerce_item xs);
                 usernames = fromkeys (filter (\<lambda>u. u \<noteq> []) usernames)
             in if length usernames = 0 then Inl NoUsernamesParsed else Inr usernames)
      | _ \<Rightarrow> Inl NotAnArray)"

definition load_usernames :: "json \<Rightarrow> load_exit + pystr list" where
  \<comment> \<open>the list loader: the parse above, then \<open>usernames = list(dict.fromkeys(usernames))\<close>\<close>
  "load_usernames data_in =
     (case parse_usernames data_in of
        Inl e \<Rightarrow> Inl e
      | Inr usernames \<Rightarrow> Inr (fromkeys usernames))"

text \<open>
  The specification's wording of the normalization, "trim whitespace, strip a single
  leading @", for comparison with \<open>normalize_username\<close>.
\<close>

definition at_sign :: nat where
  "at_sign = of_char CHR ''@''"

fun strip_single_at :: "pystr \<Rightarrow> pystr" where
  "strip_single_at [] = []"
| "strip_single_at (c # cs) = (if c = at_sign then cs else c # cs)"

definition spec_normalize :: "pystr \<Rightarrow> pystr" where
  "spec_normalize u = strip_single_at (strip u)"

section \<open>Exceptions and the browser\<close>

text \<open>
  The exception classes the script distinguishes. \<open>PlaywrightTimeoutError\<close> is a subclass
  of Playwright's \<open>Error\<close>, both are subclasses of \<open>Exception\<close>; \<open>KeyboardInterrupt\<close> and
  \<open>CancelledError\<close> derive from \<open>BaseException\<close> only, so \<open>except Exception\<close> lets them
  pass. An exception carries the text \<open>str(e)\<close>.
\<close>

datatype exn_class =
    PlaywrightTimeoutError
  | PlaywrightError
  | OtherException
  | ZeroDivisionError
  | KeyboardInterrupt
  | CancelledError

datatype exn = Exn (exn_class: exn_class) (exn_str: pystr)

definition is_Exception :: "exn \<Rightarrow> bool" where
  \<comment> \<open>\<open>except Exception\<close>\<close>
  "is_Exception e = (exn_class e \<noteq> KeyboardInterrupt \<and> exn_class e \<noteq> CancelledError)"

definition is_PlaywrightTimeoutError :: "exn \<Rightarrow> bool" where
  \<comment> \<open>\<open>except PlaywrightTimeoutError\<close>\<close>
  "is_PlaywrightTimeoutError e = (exn_class e = PlaywrightTimeoutError)"

definition is_KeyboardInterrupt :: "exn \<Rightarrow> bool" where
  \<comment> \<open>\<open>except KeyboardInterrupt\<close>\<close>
  "is_KeyboardInterrupt e = (exn_class e = KeyboardInterrupt)"

text \<open>
  An action runs in a state and either returns a value or raises, leaving a new state.
  \<open>io_bind\<close> is sequencing (an exception skips the rest), \<open>try_except\<close> is
  \<open>try: m  except <handles> as e: handler e\<close>; an exception raised by the handler
  itself is passed on.
\<close>

type_synonym ('s, 'a) io = "'s \<Rightarrow> (exn + 'a) \<times> 's"

definition io_return :: "'a \<Rightarrow> ('s, 'a) io" where
  "io_return a s = (Inr a, s)"

definition io_raise :: "exn \<Rightarrow> ('s, 'a) io" where
  "io_raise e s = (Inl e, s)"

definition io_bind :: "('s, 'a) io \<Rightarrow> ('a \<Rightarrow> ('s, 'b) io) \<Rightarrow> ('s, 'b) io" where
  "io_bind m f s = (case m s of (Inl e, s') \<Rightarrow> (Inl e, s') | (Inr a, s') \<Rightarrow> f a s')"

definition try_except :: "('s, 'a) io \<Rightarrow> (exn \<Rightarrow> bool) \<Rightarrow> (exn \<Rightarrow> ('s, 'a) io) \<Rightarrow> ('s, 'a) io" where
  "try_except m handles handler s =
     (case m s of
        (Inl e, s') \<Rightarrow> if handles e then handler e s' else (Inl e, s')
      | (Inr a, s') \<Rightarrow> (Inr a, s'))"

text \<open>
  The selectors the script uses:
  \<^item> \<open>Header\<close>: \<^verbatim>\<open>header\<close>
  \<^item> \<open>FollowButtons\<close>: \<^verbatim>\<open>button:has-text('Follow'), button:has-text('Follow back')\<close>
  \<^item> \<open>FollowingButtons\<close>: \<^verbatim>\<open>button:has-text('Following'), button:has-text('Requested')\<close>
  \<^item> \<open>UnfollowButton\<close>: \<^verbatim>\<open>button:has-text('Unfollow')\<close>
  \<^item> \<open>FollowsYouText\<close>: \<^verbatim>\<open>text=Follows you\<close>
  \<^item> \<open>FollowsYouDiv\<close>: \<^verbatim>\<open>header div:has-text('Follows you')\<close>
\<close>

datatype selector =
    Header
  | FollowButtons
  | FollowingButtons
  | UnfollowButton
  | FollowsYouText
  | FollowsYouDiv

text \<open>
  One line of the log file. The \<open>action\<close> field is the constructor; \<open>ts\<close> is assigned
  by \<open>log_action\<close> when the line is written.
\<close>

datatype log_entry =
    FollowAttempt pystr bool int nat pystr
      \<comment> \<open>username, performed, index, total, ts\<close>
  | UnfollowOnFollowback pystr bool pystr
      \<comment> \<open>username, unfollowed, ts\<close>
  | CheckFollowback pystr bool pystr
      \<comment> \<open>username, follows\_me, ts\<close>
  | ErrorEntry pystr pystr pystr
      \<comment> \<open>username, error, ts\<close>

fun action :: "log_entry \<Rightarrow> string" where
  "action (FollowAttempt u p i n t) = ''follow_attempt''"
| "action (UnfollowOnFollowback u b t) = ''unfollow_on_followback''"
| "action (CheckFollowback u b t) = ''check_followback''"
| "action (ErrorEntry u e t) = ''error''"

fun username :: "log_entry \<Rightarrow> pystr" where
  "username (FollowAttempt u p i n t) = u"
| "username (UnfollowOnFollowback u b t) = u"
| "username (CheckFollowback u b t) = u"
| "username (ErrorEntry u e t) = u"

text \<open>
  The messages that interpolate a username, the text of an exception or the path of
  the list file. Printing such a message can raise (\<open>UnicodeEncodeError\<close> for text that
  standard output cannot encode), so these calls of \<open>print\<close> are steps of the model.
  Messages made of fixed text, numbers and timestamps are taken to be printed without
  error and are left out.
  \<^item> \<open>CouldntLoadProfile\<close>: "[ERROR] Couldn't load profile {uname}: {e}"
  \<^item> \<open>ProfileHeaderDidNotLoad\<close>: "[WARN] Profile header did not load for {uname}"
  \<^item> \<open>Followed\<close>: "[ACTION] Followed {uname}"
  \<^item> \<open>ExceptionTryingToFollow\<close>: "[ERROR] Exception trying to follow {uname}: {e}"
  \<^item> \<open>CouldntLoadProfileForCheck\<close>:
    "[ERROR] Couldn't load profile {uname} for follow-back check: {e}"
  \<^item> \<open>CouldntLoadProfileForUnfollow\<close>:
    "[ERROR] Couldn't load profile {uname} for unfollow: {e}"
  \<^item> \<open>HeaderDidntLoadForUnfollowing\<close>: "[WARN] Header didn't load for unfollowing {uname}"
  \<^item> \<open>UnfollowedConfirmed\<close>: "[ACTION] Unfollowed {uname} (confirmed)"
  \<^item> \<open>ClickedNoConfirm\<close>:
    "[ACTION] Clicked following/requested button for {uname} (no confirm found)."
  \<^item> \<open>ExceptionWhileUnfollowing\<close>:
    "[ERROR] Exception while trying to unfollow {uname}: {e}"
  \<^item> \<open>ErrorCheckingUnfollowing\<close>: "[WARN] Error checking/unfollowing {uname}: {e}"
  \<^item> \<open>FollowersListFileNotFound\<close>: "[ERROR] Followers list file not found: {list_file}"
  \<^item> \<open>FailedToLoadListFile\<close>: "[ERROR] Failed to load/parse list file: {e}"
\<close>

datatype message =
    CouldntLoadProfile pystr exn
  | ProfileHeaderDidNotLoad pystr
  | Followed pystr
  | ExceptionTryingToFollow pystr exn
  | CouldntLoadProfileForCheck pystr exn
  | CouldntLoadProfileForUnfollow pystr exn
  | HeaderDidntLoadForUnfollowing pystr
  | UnfollowedConfirmed pystr
  | ClickedNoConfirm pystr
  | ExceptionWhileUnfollowing pystr exn
  | ErrorCheckingUnfollowing pystr exn
  | FollowersListFileNotFound
  | FailedToLoadListFile

text \<open>
  What the script asks of Playwright, of \<open>asyncio.sleep\<close>, of the clock, of standard
  output and of the log file, over a world \<open>'w\<close> that the script cannot inspect: every
  call may return or raise, and changes the world. A locator is named by its selector,
  \<open>locator.nth(i)\<close> by selector and index (\<open>.first\<close> is index 0). \<open>query_selector\<close>
  returns whether an element was found. \<open>sleep lo hi\<close> is \<open>asyncio.sleep\<close> of a duration
  drawn from \<open>[lo, hi]\<close> seconds. \<open>write_line\<close> is opening the log file for appending and
  writing one line (it raises for a path that cannot be written and for text that
  cannot be encoded). Timeout arguments are part of how the world answers.
\<close>

record 'w env =
  goto :: "pystr \<Rightarrow> ('w, unit) io"
  wait_for_selector :: "selector \<Rightarrow> ('w, unit) io"
  query_selector :: "selector \<Rightarrow> ('w, bool) io"
  locator_count :: "selector \<Rightarrow> ('w, nat) io"
  is_visible :: "selector \<Rightarrow> nat \<Rightarrow> ('w, bool) io"
  inner_text :: "selector \<Rightarrow> nat \<Rightarrow> ('w, pystr) io"
  scroll_into_view_if_needed :: "selector \<Rightarrow> nat \<Rightarrow> ('w, unit) io"
  click :: "selector \<Rightarrow> nat \<Rightarrow> ('w, unit) io"
  sleep :: "int \<Rightarrow> int \<Rightarrow> ('w, unit) io"
  now_iso :: "'w \<Rightarrow> pystr"
  print :: "message \<Rightarrow> ('w, unit) io"
  write_line :: "log_entry \<Rightarrow> ('w, unit) io"

section \<open>The action primitives\<close>

definition profile_url :: "pystr \<Rightarrow> pystr" where
  "profile_url uname = ascii ''https://www.instagram.com/'' @ uname @ ascii ''/''"

fun follow_buttons :: "'w env \<Rightarrow> pystr \<Rightarrow> nat list \<Rightarrow> ('w, bool) io" where
  \<comment> \<open>the loop \<open>for i in range(count)\<close> of \<open>follow_profile\<close>\<close>
  "follow_buttons page uname [] = io_return False"
| "follow_buttons page uname (i # rest) =
     io_bind (is_visible page FollowButtons i) (\<lambda>visible.
       if visible then
         io_bind (inner_text page FollowButtons i) (\<lambda>t.
           let text = strip t in
           if str_in (ascii ''Follow'') text \<and> \<not> str_in (ascii ''Following'') text
              \<and> \<not> str_in (ascii ''Requested'') text
           then
             io_bind (scroll_into_view_if_needed page FollowButtons i) (\<lambda>_.
             io_bind (click page FollowButtons i) (\<lambda>_.
             io_bind (print page (Followed uname)) (\<lambda>_.
             io_return True)))
           else follow_buttons page uname rest)
       else follow_buttons page uname rest)"

definition click_follow :: "'w env \<Rightarrow> pystr \<Rightarrow> ('w, bool) io" where
  \<comment> \<open>the body of the third \<open>try\<close> of \<open>follow_profile\<close>\<close>
  "click_follow page uname =
     io_bind (locator_count page FollowButtons) (\<lambda>count.
     follow_buttons page uname [0..<count])"

definition follow_profile :: "'w env \<Rightarrow> pystr \<Rightarrow> ('w, bool) io" where
  "follow_profile page uname =
     io_bind
       (try_except (io_bind (goto page (profile_url uname)) (\<lambda>_. io_return True))
          is_Exception
          (\<lambda>e. io_bind (print page (CouldntLoadProfile uname e)) (\<lambda>_. io_return False)))
       (\<lambda>loaded. if \<not> loaded then io_return False else
     io_bind
       (try_except (io_bind (wait_for_selector page Header) (\<lambda>_. io_return True))
          is_PlaywrightTimeoutError
          (\<lambda>e. io_bind (print page (ProfileHeaderDidNotLoad uname)) (\<lambda>_. io_return False)))
       (\<lambda>header. if \<not> header then io_return False else
     try_except (click_follow page uname) is_Exception
       (\<lambda>e. io_bind (print page (ExceptionTryingToFollow uname e)) (\<lambda>_. io_return False))))"

definition find_follows_you :: "'w env \<Rightarrow> pystr \<Rightarrow> ('w, bool) io" where
  \<comment> \<open>the body of the third \<open>try\<close> of \<open>is_user_following_me\<close>, and the \<open>return False\<close>
     after it\<close>
  "find_follows_you page uname =
     io_bind (query_selector page FollowsYouText) (\<lambda>found.
       if found then io_return True else
     io_bind (query_selector page FollowsYouDiv) (\<lambda>found.
       if found then io_return True else io_return False))"

definition is_user_following_me :: "'w env \<Rightarrow> pystr \<Rightarrow> ('w, bool) io" where
  "is_user_following_me page uname =
     io_bind
       (try_except (io_bind (goto page (profile_url uname)) (\<lambda>_. io_return True))
          is_Exception
          (\<lambda>e. io_bind (print page (CouldntLoadProfileForCheck uname e)) (\<lambda>_. io_return False)))
       (\<lambda>loaded. if \<not> loaded then io_return False else
     io_bind
       (try_except (io_bind (wait_for_selector page Header) (\<lambda>_. io_return True))
          is_PlaywrightTimeoutError (\<lambda>e. io_return False))
       (\<lambda>header. if \<not> header then io_return False else
     try_except (find_follows_you page uname) is_Exception (\<lambda>e. io_return False)))"

definition confirm_unfollow :: "'w env \<Rightarrow> pystr \<Rightarrow> ('w, bool) io" where
  \<comment> \<open>the inner \<open>try\<close> of \<open>unfollow_profile\<close>; the result says whether it returned True\<close>
  "confirm_unfollow page uname =
     try_except
       (io_bind (wait_for_selector page UnfollowButton) (\<lambda>_.
        io_bind (is_visible page UnfollowButton 0) (\<lambda>visible.
          if visible then
            io_bind (click page UnfollowButton 0) (\<lambda>_.
            io_bind (print page (UnfollowedConfirmed uname)) (\<lambda>_.
            io_return True))
          else io_return False)))
       is_PlaywrightTimeoutError
       (\<lambda>e. io_bind (print page (ClickedNoConfirm uname)) (\<lambda>_. io_return True))"

fun unfollow_buttons :: "'w env \<Rightarrow> pystr \<Rightarrow> nat list \<Rightarrow> ('w, bool) io" where
  \<comment> \<open>the loop \<open>for i in range(cnt)\<close> of \<open>unfollow_profile\<close>\<close>
  "unfollow_buttons page uname [] = io_return False"
| "unfollow_buttons page uname (i # rest) =
     io_bind (is_visible page FollowingButtons i) (\<lambda>visible.
       if visible then
         io_bind (scroll_into_view_if_needed page FollowingButtons i) (\<lambda>_.
         io_bind (click page FollowingButtons i) (\<lambda>_.
         io_bind (confirm_unfollow page uname) (\<lambda>returned.
           if returned then io_return True else unfollow_buttons page uname rest)))
       else unfollow_buttons page uname rest)"

definition click_following :: "'w env \<Rightarrow> pystr \<Rightarrow> ('w, bool) io" where
  \<comment> \<open>the body of the outer \<open>try\<close> of \<open>unfollow_profile\<close>\<close>
  "click_following page uname =
     io_bind (locator_count page FollowingButtons) (\<lambda>cnt.
     unfollow_buttons page uname [0..<cnt])"

definition unfollow_profile :: "'w env \<Rightarrow> pystr \<Rightarrow> ('w, bool) io" where
  "unfollow_profile page uname =
     io_bind
       (try_except (io_bind (goto page (profile_url uname)) (\<lambda>_. io_return True))
          is_Exception
          (\<lambda>e. io_bind (print page (CouldntLoadProfileForUnfollow uname e))
                 (\<lambda>_. io_return False)))
       (\<lambda>loaded. if \<not> loaded then io_return False else
     io_bind
       (try_except (io_bind (wait_for_selector page Header) (\<lambda>_. io_return True))
          is_PlaywrightTimeoutError
          (\<lambda>e. io_bind (print page (HeaderDidntLoadForUnfollowing uname))
                 (\<lambda>_. io_return False)))
       (\<lambda>header. if \<not> header then io_return False else
     try_except (click_following page uname) is_Exception
       (\<lambda>e. io_bind (print page (ExceptionWhileUnfollowing uname e)) (\<lambda>_. io_return False))))"

section \<open>The controller\<close>

text \<open>
  The state of \<open>follow_then_unfollow_loop\<close> from the point where the list file is read:
  the world behind the page, the lines appended to the log file, whether context and
  browser are open, and the local variable \<open>followed_set\<close>. A Python set is kept as
  the list of its members without duplicates; the order in which Python iterates it is
  not specified, the model iterates in insertion order. Launching the browser and
  logging in (the lines before the list file is read) are not modelled; they lie in the
  same \<open>async with\<close> block. \<open>context.close()\<close> and \<open>browser.close()\<close> are taken to succeed.
\<close>

record 'w state =
  world :: 'w
  log :: "log_entry list"
  context_open :: bool
  browser_open :: bool
  followed_set :: "pystr list"

definition MIN_DELAY_BETWEEN_ACTIONS :: int where
  "MIN_DELAY_BETWEEN_ACTIONS = 5"

definition MAX_DELAY_BETWEEN_ACTIONS :: int where
  "MAX_DELAY_BETWEEN_ACTIONS = 12"

definition BATCH_PAUSE :: int where
  "BATCH_PAUSE = 60"

definition on_page :: "('w, 'a) io \<Rightarrow> ('w state, 'a) io" where
  \<comment> \<open>an action on the world, run from the controller\<close>
  "on_page m s = (case m (world s) of (r, w') \<Rightarrow> (r, s\<lparr>world := w'\<rparr>))"

definition log_action :: "'w env \<Rightarrow> (pystr \<Rightarrow> log_entry) \<Rightarrow> ('w state, unit) io" where
  \<comment> \<open>the timestamp is taken, then the file is opened and the line written; when that
     raises, nothing has been appended\<close>
  "log_action env entry s =
     (let line = entry (now_iso env (world s)) in
      io_bind (on_page (write_line env line))
        (\<lambda>_ s'. (Inr (), s'\<lparr>log := log s' @ [line]\<rparr>)) s)"

definition close_all :: "'w state \<Rightarrow> 'w state" where
  \<comment> \<open>\<open>await context.close(); await browser.close()\<close>\<close>
  "close_all s = s\<lparr>context_open := False, browser_open := False\<rparr>"

definition playwright_stop :: "'w state \<Rightarrow> 'w state" where
  \<comment> \<open>leaving \<open>async with async_playwright()\<close>, by return or by exception: the driver is
     stopped, which closes every browser and context it launched\<close>
  "playwright_stop s = s\<lparr>context_open := False, browser_open := False\<rparr>"

definition py_mod :: "int \<Rightarrow> int \<Rightarrow> ('s, int) io" where
  \<comment> \<open>\<open>a % b\<close> on Python ints: the sign follows the divisor, as for \<open>mod\<close> on \<open>int\<close>\<close>
  "py_mod a b =
     (if b = 0 then io_raise (Exn ZeroDivisionError (ascii ''integer modulo by zero''))
      else io_return (a mod b))"

fun follow_pass :: "'w env \<Rightarrow> int \<Rightarrow> nat \<Rightarrow> int \<Rightarrow> pystr list \<Rightarrow> ('w state, unit) io" where
  \<comment> \<open>\<open>for idx, uname in enumerate(usernames, start=1)\<close>, from index \<open>idx\<close> on\<close>
  "follow_pass env batch_size n_total idx [] = io_return ()"
| "follow_pass env batch_size n_total idx (uname # rest) =
     io_bind (on_page (follow_profile env uname)) (\<lambda>performed.
     io_bind (log_action env (FollowAttempt uname performed idx n_total)) (\<lambda>_.
     io_bind (on_page (sleep env MIN_DELAY_BETWEEN_ACTIONS MAX_DELAY_BETWEEN_ACTIONS)) (\<lambda>_.
     io_bind (py_mod idx batch_size) (\<lambda>r.
     io_bind (if r = 0 then on_page (sleep env (BATCH_PAUSE + 1) (BATCH_PAUSE + 10))
              else io_return ()) (\<lambda>_.
     follow_pass env batch_size n_total (idx + 1) rest)))))"

definition discard :: "pystr \<Rightarrow> ('w state, unit) io" where
  \<comment> \<open>\<open>followed_set.discard(uname)\<close>\<close>
  "discard uname s = (Inr (), s\<lparr>followed_set := removeAll uname (followed_set s)\<rparr>)"

definition check_user :: "'w env \<Rightarrow> pystr \<Rightarrow> ('w state, unit) io" where
  \<comment> \<open>the body of the \<open>try\<close> inside \<open>for uname in list(followed_set)\<close>\<close>
  "check_user env uname =
     io_bind (on_page (is_user_following_me env uname)) (\<lambda>follows_me.
       if follows_me then
         io_bind (on_page (unfollow_profile env uname)) (\<lambda>unfollowed.
         io_bind (log_action env (UnfollowOnFollowback uname unfollowed)) (\<lambda>_.
         if unfollowed then discard uname else io_return ()))
       else log_action env (CheckFollowback uname False))"

definition monitor_user :: "'w env \<Rightarrow> pystr \<Rightarrow> ('w state, unit) io" where
  \<comment> \<open>the body of \<open>for uname in list(followed_set)\<close>\<close>
  "monitor_user env uname =
     io_bind
       (try_except (check_user env uname) is_Exception
          (\<lambda>e. io_bind (on_page (print env (ErrorCheckingUnfollowing uname e))) (\<lambda>_.
                log_action env (ErrorEntry uname (exn_str e)))))
       (\<lambda>_. on_page (sleep env 8 18))"

fun monitor_users :: "'w env \<Rightarrow> pystr list \<Rightarrow> ('w state, unit) io" where
  "monitor_users env [] = io_return ()"
| "monitor_users env (uname # rest) =
     io_bind (monitor_user env uname) (\<lambda>_. monitor_users env rest)"

definition monitor_pass :: "'w env \<Rightarrow> int \<Rightarrow> ('w state, unit) io" where
  \<comment> \<open>one turn of \<open>while True\<close> with a non-empty \<open>followed_set\<close>\<close>
  "monitor_pass env interval s =
     io_bind (monitor_users env (followed_set s)) (\<lambda>_.
     on_page (sleep env interval (interval + 60))) s"

text \<open>
  The loop \<open>while True\<close> may run for ever (a user who never follows back stays in
  \<open>followed_set\<close>): the first argument bounds the number of turns, and \<open>None\<close> is a loop
  that has not ended within them.
\<close>

fun monitor_loop :: "nat \<Rightarrow> 'w env \<Rightarrow> int \<Rightarrow> 'w state \<Rightarrow> ((exn + unit) \<times> 'w state) option" where
  "monitor_loop 0 env interval s = None"
| "monitor_loop (Suc fuel) env interval s =
     (if followed_set s = [] then Some (Inr (), s)
      else
        (case monitor_pass env interval s of
           (Inl e, s') \<Rightarrow> Some (Inl e, s')
         | (Inr _, s') \<Rightarrow> monitor_loop fuel env interval s'))"

fun passes :: "nat \<Rightarrow> 'w env \<Rightarrow> int \<Rightarrow> 'w state \<Rightarrow> 'w state option" where
  \<comment> \<open>the state at the start of turn \<open>k\<close> of the loop, if the loop gets there\<close>
  "passes 0 env interval s = Some s"
| "passes (Suc k) env interval s =
     (if followed_set s = [] then None
      else
        (case monitor_pass env interval s of
           (Inl e, s') \<Rightarrow> None
         | (Inr _, s') \<Rightarrow> passes k env interval s'))"

definition monitoring :: "nat \<Rightarrow> 'w env \<Rightarrow> int \<Rightarrow> 'w state \<Rightarrow> ((exn + unit) \<times> 'w state) option" where
  \<comment> \<open>\<open>try: while True: ...  except KeyboardInterrupt: print  finally: close\<close>\<close>
  "monitoring fuel env interval s =
     (case monitor_loop fuel env interval s of
        None \<Rightarrow> None
      | Some (Inl e, s') \<Rightarrow>
          Some (if is_KeyboardInterrupt e then Inr () else Inl e, close_all s')
      | Some (Inr _, s') \<Rightarrow> Some (Inr (), close_all s'))"

datatype list_file =
    NoSuchFile
      \<comment> \<open>\<open>followers_list_path.exists()\<close> is false\<close>
  | Unreadable
      \<comment> \<open>opening the file or \<open>json.load\<close> raises an \<open>Exception\<close>\<close>
  | Parsed json

datatype outcome =
    Exited load_exit
      \<comment> \<open>printed the message, closed context and browser, returned before the follow pass\<close>
  | Finished
      \<comment> \<open>returned after the monitoring loop\<close>
  | Raised exn
      \<comment> \<open>left by an exception\<close>

definition loop_block ::
  "nat \<Rightarrow> 'w env \<Rightarrow> list_file \<Rightarrow> int \<Rightarrow> int \<Rightarrow> 'w state \<Rightarrow> (outcome \<times> 'w state) option" where
  \<comment> \<open>the block under \<open>async with async_playwright() as p\<close>, from the list file on\<close>
  "loop_block fuel env list_file interval batch_size s =
     (case list_file of
        NoSuchFile \<Rightarrow>
          (case on_page (print env FollowersListFileNotFound) s of
             (Inl e, s1) \<Rightarrow> Some (Raised e, s1)
           | (Inr _, s1) \<Rightarrow> Some (Exited ListFileNotFound, close_all s1))
      | Unreadable \<Rightarrow>
          (case on_page (print env FailedToLoadListFile) s of
             (Inl e, s1) \<Rightarrow> Some (Raised e, s1)
           | (Inr _, s1) \<Rightarrow> Some (Exited LoadFailed, close_all s1))
      | Parsed data_in \<Rightarrow>
          (case load_usernames data_in of
             Inl x \<Rightarrow> Some (Exited x, close_all s)
           | Inr usernames \<Rightarrow>
               (case follow_pass env batch_size (length usernames) 1 usernames s of
                  (Inl e, s1) \<Rightarrow> Some (Raised e, s1)
                | (Inr _, s1) \<Rightarrow>
                    (case monitoring fuel env interval
                            (s1\<lparr>followed_set := fromkeys usernames\<rparr>) of
                       None \<Rightarrow> None
                     | Some (Inl e, s2) \<Rightarrow> Some (Raised e, s2)
                     | Some (Inr _, s2) \<Rightarrow> Some (Finished, s2)))))"

definition follow_then_unfollow_loop ::
  "nat \<Rightarrow> 'w env \<Rightarrow> list_file \<Rightarrow> int \<Rightarrow> int \<Rightarrow> 'w state \<Rightarrow> (outcome \<times> 'w state) option" where
  \<comment> \<open>the block, then the exit of \<open>async with\<close> on whatever way the block was left\<close>
  "follow_then_unfollow_loop fuel env list_file interval batch_size s =
     (case loop_block fuel env list_file interval batch_size s of
        None \<Rightarrow> None
      | Some (out, s') \<Rightarrow> Some (out, playwright_stop s'))"

definition initial :: "'w \<Rightarrow> 'w state" where
  \<comment> \<open>browser launched, context and page open, nothing logged\<close>
  "initial w = \<lparr>world = w, log = [], context_open = True, browser_open = True,
                followed_set = []\<rparr>"

section \<open>Auxiliary notions for the statements\<close>

fun isinstance_list :: "json \<Rightarrow> bool" where
  "isinstance_list (JList xs) = True"
| "isinstance_list _ = False"

fun usable_username :: "json \<Rightarrow> bool" where
  \<comment> \<open>a record with a string \<open>username\<close> field that is not empty once normalized\<close>
  "usable_username (JDict kvs) =
     (case map_of kvs (ascii ''username'') of
        Some (JStr u) \<Rightarrow> normalize_username u \<noteq> []
      | _ \<Rightarrow> False)"
| "usable_username _ = False"


definition keeps_followed_set :: "('w state, 'a) io \<Rightarrow> bool" where
  \<comment> \<open>the action leaves \<open>followed_set\<close> as it is\<close>
  "keeps_followed_set m = (\<forall>s r s'. m s = (r, s') \<longrightarrow> followed_set s' = followed_set s)"

definition print_opt :: "'w env \<Rightarrow> message option \<Rightarrow> ('w, unit) io" where
  \<comment> \<open>a handler that prints a message, or one that prints nothing\<close>
  "print_opt page m = (case m of None \<Rightarrow> io_return () | Some msg \<Rightarrow> print page msg)"

definition on_profile ::
  "'w env \<Rightarrow> pystr \<Rightarrow> (exn \<Rightarrow> message option) \<Rightarrow> message option \<Rightarrow> (exn \<Rightarrow> message option)
     \<Rightarrow> ('w, bool) io \<Rightarrow> ('w, bool) io" where
  \<comment> \<open>the shape the three primitives share: load the profile, wait for its header, then
     run the body; each step in its own \<open>try\<close>, whose handler prints and returns False\<close>
  "on_profile page uname m_goto m_header m_body body =
     io_bind
       (try_except (io_bind (goto page (profile_url uname)) (\<lambda>_. io_return True))
          is_Exception
          (\<lambda>e. io_bind (print_opt page (m_goto e)) (\<lambda>_. io_return False)))
       (\<lambda>loaded. if \<not> loaded then io_return False else
     io_bind
       (try_except (io_bind (wait_for_selector page Header) (\<lambda>_. io_return True))
          is_PlaywrightTimeoutError
          (\<lambda>e. io_bind (print_opt page m_header) (\<lambda>_. io_return False)))
       (\<lambda>header. if \<not> header then io_return False else
     try_except body is_Exception
       (\<lambda>e. io_bind (print_opt page (m_body e)) (\<lambda>_. io_return False))))"


text \<open>
  A simulated browser for the examples. The world is the address of the page shown.
  Navigation raises \<open>goto_exn\<close> if given, waiting for the profile header raises
  \<open>header_exn\<close> if given; every profile shows one visible button labelled "Follow"
  (or "Following", under the other locator), the confirmation button appears, and the
  profiles of \<open>followers\<close> show "Follows you". Sleeping returns at once, printing and
  writing the log succeed.
\<close>

definition sim_ts :: pystr where
  "sim_ts = ascii ''2026-01-01T00:00:00+00:00''"

definition sim_page :: "exn option \<Rightarrow> exn option \<Rightarrow> pystr list \<Rightarrow> pystr env" where
  "sim_page goto_exn header_exn followers =
     \<lparr> goto = (\<lambda>url w. case goto_exn of Some e \<Rightarrow> (Inl e, w) | None \<Rightarrow> (Inr (), url)),
       wait_for_selector = (\<lambda>sel w.
         case header_exn of
           Some e \<Rightarrow> if sel = Header then (Inl e, w) else (Inr (), w)
         | None \<Rightarrow> (Inr (), w)),
       query_selector = (\<lambda>sel w.
         (Inr (sel = FollowsYouText \<and> w \<in> set (map profile_url followers)), w)),
       locator_count = (\<lambda>sel w. (Inr 1, w)),
       is_visible = (\<lambda>sel i w. (Inr True, w)),
       inner_text = (\<lambda>sel i w.
         (Inr (if sel = FollowButtons then ascii ''Follow'' else ascii ''Following''), w)),
       scroll_into_view_if_needed = (\<lambda>sel i w. (Inr (), w)),
       click = (\<lambda>sel i w. (Inr (), w)),
       sleep = (\<lambda>lo hi w. (Inr (), w)),
       now_iso = (\<lambda>w. sim_ts),
       print = (\<lambda>msg w. (Inr (), w)),
       write_line = (\<lambda>line w. (Inr (), w)) \<rparr>"




definition zero_division :: exn where
  \<comment> \<open>what \<open>idx % 0\<close> raises\<close>
  "zero_division = Exn ZeroDivisionError (ascii ''integer modulo by zero'')"



section \<open>Properties of the list loader\<close>

lemma set_dict_fromkeys: "set (dict_fromkeys keys xs) = set keys \<union> set xs"
  by (induction xs arbitrary: keys) auto

lemma distinct_dict_fromkeys: "distinct keys \<Longrightarrow> distinct (dict_fromkeys keys xs)"
  by (induction xs arbitrary: keys) auto

lemma dict_fromkeys_snoc:
  "dict_fromkeys keys (xs @ [x]) =
     (if x \<in> set (dict_fromkeys keys xs) then dict_fromkeys keys xs
      else dict_fromkeys keys xs @ [x])"
  by (induction xs arbitrary: keys) auto

lemma dict_fromkeys_distinct_id:
  "distinct (keys @ xs) \<Longrightarrow> dict_fromkeys keys xs = keys @ xs"
  by (induction xs arbitrary: keys) auto

lemma fromkeys_distinct_id: "distinct xs \<Longrightarrow> fromkeys xs = xs"
  by (simp add: fromkeys_def dict_fromkeys_distinct_id)

lemma distinct_fromkeys: "distinct (fromkeys xs)"
  by (simp add: fromkeys_def distinct_dict_fromkeys)

lemma set_fromkeys: "set (fromkeys xs) = set xs"
  by (simp add: fromkeys_def set_dict_fromkeys)

lemma fromkeys_first_seen: "fromkeys xs = rev (remdups (rev xs))"
proof (induction xs rule: rev_induct)
  case Nil
  show ?case by (simp add: fromkeys_def)
next
  case (snoc x xs)
  have "set (dict_fromkeys [] xs) = set xs"
    by (simp add: set_dict_fromkeys)
  with snoc show ?case
    by (simp add: fromkeys_def dict_fromkeys_snoc)
qed

lemma fromkeys_filter: "fromkeys (filter P xs) = filter P (fromkeys xs)"
  by (simp add: fromkeys_first_seen rev_filter remdups_filter)

lemma rstrip_nil_or_last: "rstrip P u = [] \<or> \<not> P (last (rstrip P u))"
proof (cases "dropWhile P (rev u)")
  case Nil
  then show ?thesis by (simp add: rstrip_def)
next
  case (Cons c cs)
  then have "\<not> P c" using hd_dropWhile[of P "rev u"] by simp
  with Cons show ?thesis by (simp add: rstrip_def)
qed

lemma lstrip_nil_or_hd: "lstrip P u = [] \<or> \<not> P (hd (lstrip P u))"
  using hd_dropWhile[of P u] by (auto simp: lstrip_def)

lemma rstrip_id: "u \<noteq> [] \<Longrightarrow> \<not> P (last u) \<Longrightarrow> rstrip P u = u"
  by (cases u rule: rev_cases) (simp_all add: rstrip_def)

lemma lstrip_id: "u \<noteq> [] \<Longrightarrow> \<not> P (hd u) \<Longrightarrow> lstrip P u = u"
  by (cases u) (simp_all add: lstrip_def)

lemma rstrip_decomp: "\<exists>post. u = rstrip P u @ post \<and> list_all P post"
proof -
  have "rev u = takeWhile P (rev u) @ dropWhile P (rev u)" by simp
  then have "u = rev (dropWhile P (rev u)) @ rev (takeWhile P (rev u))"
    by (metis rev_append rev_rev_ident)
  moreover have "list_all P (rev (takeWhile P (rev u)))"
    by (simp add: list_all_iff) (meson set_takeWhileD)
  ultimately show ?thesis unfolding rstrip_def by blast
qed

lemma lstrip_decomp: "\<exists>pre. u = pre @ lstrip P u \<and> list_all P pre"
proof -
  have "u = takeWhile P u @ dropWhile P u" by simp
  moreover have "list_all P (takeWhile P u)"
    by (simp add: list_all_iff) (meson set_takeWhileD)
  ultimately show ?thesis unfolding lstrip_def by blast
qed

lemma rstrip_hd: "rstrip P u \<noteq> [] \<Longrightarrow> hd (rstrip P u) = hd u"
  using rstrip_decomp[of u P] by (metis hd_append2)

lemma lstrip_last: "lstrip P u \<noteq> [] \<Longrightarrow> last (lstrip P u) = last u"
  using lstrip_decomp[of u P] by (metis last_appendR)

lemma strip_decomp:
  "\<exists>pre post. u = pre @ strip u @ post \<and> list_all is_space pre \<and> list_all is_space post"
proof -
  obtain pre where 1: "u = pre @ lstrip is_space u" "list_all is_space pre"
    using lstrip_decomp by blast
  obtain post where 2: "lstrip is_space u = strip u @ post" "list_all is_space post"
    unfolding strip_def using rstrip_decomp by blast
  from 1 2 show ?thesis by (metis)
qed

lemma strip_ends:
  "strip u = [] \<or> (\<not> is_space (hd (strip u)) \<and> \<not> is_space (last (strip u)))"
proof (cases "strip u = []")
  case True then show ?thesis by simp
next
  case False
  then have ne: "lstrip is_space u \<noteq> []" by (auto simp: strip_def rstrip_def)
  have "hd (strip u) = hd (lstrip is_space u)"
    using False rstrip_hd[of is_space "lstrip is_space u"] by (simp add: strip_def)
  moreover have "\<not> is_space (hd (lstrip is_space u))"
    using ne lstrip_nil_or_hd[of is_space u] by simp
  moreover have "\<not> is_space (last (strip u))"
    using False rstrip_nil_or_last[of is_space "lstrip is_space u"] by (simp add: strip_def)
  ultimately show ?thesis by simp
qed

lemma strip_id: "u \<noteq> [] \<Longrightarrow> \<not> is_space (hd u) \<Longrightarrow> \<not> is_space (last u) \<Longrightarrow> strip u = u"
  by (simp add: strip_def lstrip_id rstrip_id)

lemma not_space_at: "\<not> is_space at_sign"
  by (simp add: is_space_def at_sign_def)

lemma lstrip_at: "lstrip_chars (ascii ''@'') u = dropWhile (\<lambda>c. c = at_sign) u"
  by (simp add: lstrip_chars_def lstrip_def ascii_def at_sign_def)

lemma takeWhile_eq_replicate:
  "takeWhile (\<lambda>c. c = a) xs = replicate (length (takeWhile (\<lambda>c. c = a) xs)) a"
  by (induction xs) auto

lemma normalize_replicate: "\<exists>k. strip u = replicate k at_sign @ normalize_username u"
proof -
  have "strip u = takeWhile (\<lambda>c. c = at_sign) (strip u) @ normalize_username u"
    by (simp add: normalize_username_def lstrip_at)
  moreover have "takeWhile (\<lambda>c. c = at_sign) (strip u)
      = replicate (length (takeWhile (\<lambda>c. c = at_sign) (strip u))) at_sign"
    by (rule takeWhile_eq_replicate)
  ultimately show ?thesis by metis
qed

lemma normalize_no_at: "normalize_username u = [] \<or> hd (normalize_username u) \<noteq> at_sign"
  using hd_dropWhile[of "\<lambda>c. c = at_sign" "strip u"] by (auto simp: normalize_username_def lstrip_at)

lemma startswith_at: "startswith u (ascii ''@'') \<longleftrightarrow> u \<noteq> [] \<and> hd u = at_sign"
  by (cases u) (auto simp: ascii_def at_sign_def)

lemma startswith_at_at:
  "startswith u (ascii ''@@'') \<longleftrightarrow> (\<exists>v. u = at_sign # at_sign # v)"
  by (cases u; cases "tl u") (auto simp: ascii_def at_sign_def)

lemma normalize_last: "normalize_username u \<noteq> [] \<Longrightarrow> \<not> is_space (last (normalize_username u))"
proof -
  assume ne: "normalize_username u \<noteq> []"
  obtain k where k: "strip u = replicate k at_sign @ normalize_username u"
    using normalize_replicate by blast
  with ne have "last (strip u) = last (normalize_username u)" by simp
  moreover from k ne have "strip u \<noteq> []" by simp
  ultimately show ?thesis using strip_ends[of u] by auto
qed

lemma normalize_fixed:
  assumes "v = normalize_username u" "v \<noteq> []" "\<not> is_space (hd v)"
  shows "strip v = v" "normalize_username v = v"
proof -
  have "\<not> is_space (last v)" using assms normalize_last by simp
  then show s: "strip v = v" using assms by (simp add: strip_id)
  have "hd v \<noteq> at_sign" using assms normalize_no_at[of u] by auto
  then show "normalize_username v = v" using s assms(2)
    by (cases v) (simp_all add: normalize_username_def lstrip_at)
qed

lemma normalize_eq_single:
  "normalize_username u = strip_single_at (strip u) \<longleftrightarrow> \<not> startswith (strip u) (ascii ''@@'')"
proof (cases "strip u")
  case Nil
  then show ?thesis by (simp add: normalize_username_def lstrip_at startswith_at_at)
next
  case (Cons c cs)
  show ?thesis
  proof (cases "c = at_sign")
    case False
    with Cons show ?thesis by (simp add: normalize_username_def lstrip_at startswith_at_at)
  next
    case True
    show ?thesis
    proof (cases cs)
      case Nil
      with Cons True show ?thesis by (simp add: normalize_username_def lstrip_at startswith_at_at)
    next
      case (Cons d ds)
      have "length (dropWhile (\<lambda>c. c = at_sign) ds) \<le> length ds"
        by (rule length_dropWhile_le)
      then have "dropWhile (\<lambda>c. c = at_sign) ds \<noteq> at_sign # ds"
        by (metis impossible_Cons)
      with Cons \<open>strip u = c # cs\<close> True show ?thesis
        by (auto simp add: normalize_username_def lstrip_at startswith_at_at)
    qed
  qed
qed

text \<open>
  Claim C7, as the code has it. Normalizing an item trims the surrounding whitespace and
  then strips every leading "@", not only one: the item is whitespace, then some number
  of "@", then the normalized username, then whitespace; the normalized username never
  starts with "@". It agrees with stripping a single "@" exactly when the trimmed item
  does not start with "@@".
\<close>

theorem normalize_strips_every_at:
  "(\<exists>pre k post.
      u = pre @ replicate k at_sign @ normalize_username u @ post
      \<and> list_all is_space pre \<and> list_all is_space post
      \<and> strip u = replicate k at_sign @ normalize_username u
      \<and> (strip u = [] \<or> (\<not> is_space (hd (strip u)) \<and> \<not> is_space (last (strip u)))))
   \<and> \<not> startswith (normalize_username u) (ascii ''@'')
   \<and> (normalize_username u = spec_normalize u \<longleftrightarrow> \<not> startswith (strip u) (ascii ''@@''))"
proof -
  obtain pre post where d: "u = pre @ strip u @ post" "list_all is_space pre" "list_all is_space post"
    using strip_decomp by blast
  obtain k where k: "strip u = replicate k at_sign @ normalize_username u"
    using normalize_replicate by blast
  have "u = pre @ replicate k at_sign @ normalize_username u @ post"
    using d(1) k by (metis append.assoc)
  with d k strip_ends[of u] have
    "\<exists>pre k post.
      u = pre @ replicate k at_sign @ normalize_username u @ post
      \<and> list_all is_space pre \<and> list_all is_space post
      \<and> strip u = replicate k at_sign @ normalize_username u
      \<and> (strip u = [] \<or> (\<not> is_space (hd (strip u)) \<and> \<not> is_space (last (strip u))))"
    by blast
  moreover have "\<not> startswith (normalize_username u) (ascii ''@'')"
    using normalize_no_at[of u] by (auto simp: startswith_at)
  moreover have "normalize_username u = spec_normalize u \<longleftrightarrow> \<not> startswith (strip u) (ascii ''@@'')"
    by (simp add: spec_normalize_def normalize_eq_single)
  ultimately show ?thesis by blast
qed

text \<open>
  Claim C7 as the specification words it (a single leading "@" is stripped, further
  ones stay) fails for the item "@@a": the code yields "a", the wording "@a".
\<close>

theorem normalize_single_at_counterexample:
  "normalize_username (ascii ''@@a'') = ascii ''a'' \<and> spec_normalize (ascii ''@@a'') = ascii ''@a''
   \<and> normalize_username (ascii ''@@a'') \<noteq> spec_normalize (ascii ''@@a'')"
  by (simp add: normalize_username_def spec_normalize_def strip_def lstrip_def rstrip_def
      lstrip_chars_def ascii_def is_space_def at_sign_def)

lemma dict_username_normalized: "u \<in> set (dict_username j) \<Longrightarrow> \<exists>x. u = normalize_username x"
  by (cases j) (auto split: option.splits json.splits)

lemma coerce_item_normalized: "u \<in> set (coerce_item j) \<Longrightarrow> \<exists>x. u = normalize_username x"
  by (cases j) (auto split: option.splits json.splits)

lemma parse_usernames_normalized:
  assumes "parse_usernames d = Inr us" "u \<in> set us"
  shows "\<exists>x. u = normalize_username x"
proof (cases d)
  case (JList xs)
  with assms show ?thesis
    by (auto simp: parse_usernames_def Let_def set_fromkeys split: if_splits
             dest: dict_username_normalized coerce_item_normalized)
qed (use assms in \<open>simp_all add: parse_usernames_def\<close>)

lemma load_usernames_normalized:
  "load_usernames d = Inr us \<Longrightarrow> u \<in> set us \<Longrightarrow> \<exists>x. u = normalize_username x"
  by (auto simp: load_usernames_def set_fromkeys split: sum.splits
           dest: parse_usernames_normalized)

lemma load_usernames_distinct: "load_usernames d = Inr us \<Longrightarrow> distinct us"
  by (auto simp: load_usernames_def distinct_fromkeys split: sum.splits)

lemma str_items_JStr: "concat (map str_items (map JStr us)) = us"
  by (induction us) auto

lemma str_items_comp_JStr: "concat (map (str_items \<circ> JStr) us) = us"
  by (induction us) auto

lemma list_all_JStr: "list_all isinstance_str (map JStr us)"
  by (induction us) auto

text \<open>
  Claim C8, as the code has it. Loading a list that the loader has produced yields the
  same list, provided that list is not empty and none of its usernames is empty or
  starts with whitespace.
\<close>

theorem load_usernames_idempotent:
  assumes "load_usernames d = Inr us" and "us \<noteq> []"
    and "\<forall>u\<in>set us. u \<noteq> [] \<and> \<not> is_space (hd u)"
  shows "load_usernames (JList (map JStr us)) = Inr us"
proof -
  have fixed: "strip u = u \<and> normalize_username u = u" if mem: "u \<in> set us" for u
  proof -
    obtain x where "u = normalize_username x" using assms(1) mem load_usernames_normalized by blast
    moreover have "u \<noteq> []" "\<not> is_space (hd u)" using assms(3) mem by auto
    ultimately show ?thesis using normalize_fixed by blast
  qed
  have "filter (\<lambda>u. strip u \<noteq> []) us = us"
    using fixed assms(3) by (simp add: filter_id_conv)
  moreover have "map normalize_username us = us"
    using fixed by (simp add: map_idI)
  moreover have "fromkeys us = us"
    using assms(1) by (simp add: fromkeys_distinct_id load_usernames_distinct)
  ultimately show ?thesis
    using assms(2) by (simp add: load_usernames_def parse_usernames_def str_items_comp_JStr list_all_JStr)
qed

lemmas load_eval = load_usernames_def parse_usernames_def normalize_username_def strip_def lstrip_def
  rstrip_def lstrip_chars_def ascii_def fromkeys_def is_space_def

lemma load_usernames_example:
  "load_usernames (JList [JStr (ascii ''@a''), JStr (ascii ''b''), JStr (ascii ''a'')])
     = Inr [ascii ''a'', ascii ''b'']"
  by (simp add: load_eval)

text \<open>
  Claim C8, witness: the output of the loader on ["@a", "b", "a"] is ["a", "b"], and
  loading ["a", "b"] yields ["a", "b"].
\<close>

theorem load_usernames_idempotent_witness:
  "load_usernames (JList [JStr (ascii ''@a''), JStr (ascii ''b''), JStr (ascii ''a'')])
     = Inr [ascii ''a'', ascii ''b'']
   \<and> [ascii ''a'', ascii ''b''] \<noteq> []
   \<and> ascii ''a'' \<noteq> [] \<and> \<not> is_space (hd (ascii ''a''))
   \<and> ascii ''b'' \<noteq> [] \<and> \<not> is_space (hd (ascii ''b''))
   \<and> load_usernames (JList (map JStr [ascii ''a'', ascii ''b''])) = Inr [ascii ''a'', ascii ''b'']"
proof -
  have 1: "load_usernames (JList [JStr (ascii ''@a''), JStr (ascii ''b''), JStr (ascii ''a'')])
     = Inr [ascii ''a'', ascii ''b'']"
    by (simp add: load_eval)
  have 2: "[ascii ''a'', ascii ''b''] \<noteq> []" by simp
  have 3: "\<forall>u\<in>set [ascii ''a'', ascii ''b'']. u \<noteq> [] \<and> \<not> is_space (hd u)"
    by (simp add: ascii_def is_space_def)
  from load_usernames_idempotent [OF 1 2 3] 1 2 3 show ?thesis by simp
qed

text \<open>
  Claim C8 as stated fails: the loader maps ["@ a"] to [" a"] (the whitespace after the
  "@" is kept, since trimming comes first), and maps [" a"] to ["a"].
\<close>

theorem load_usernames_idempotent_counterexample:
  "load_usernames (JList [JStr (ascii ''@ a'')]) = Inr [ascii '' a'']
   \<and> load_usernames (JList (map JStr [ascii '' a''])) = Inr [ascii ''a'']
   \<and> load_usernames (JList (map JStr [ascii '' a''])) \<noteq> Inr [ascii '' a'']"
  by (simp add: load_eval)

text \<open>
  Claim C1 at the input ["@"]. The all-strings branch tests \<open>u.strip()\<close>, not the
  normalized item, so the loader returns the list holding the empty string. The
  branches for objects and for mixed lists filter after normalizing and reject the
  same username.
\<close>

theorem load_usernames_keeps_empty_string:
  "load_usernames (JList [JStr (ascii ''@'')]) = Inr [[]]
   \<and> load_usernames (JList [JDict [(ascii ''username'', JStr (ascii ''@''))]]) = Inl NoUsernameField
   \<and> load_usernames (JList [JStr (ascii ''@''), JNull]) = Inl NoUsernamesParsed"
  by (simp add: load_eval)

text \<open>
  Claim C7, witness: the item "  @@a " is two spaces, two "@", the username "a" and one
  space.
\<close>

theorem normalize_strips_every_at_witness:
  "normalize_username (ascii ''  @@a '') = ascii ''a''
   \<and> strip (ascii ''  @@a '') = ascii ''@@a''
   \<and> (\<exists>pre k post.
      ascii ''  @@a '' = pre @ replicate k at_sign @ normalize_username (ascii ''  @@a '') @ post
      \<and> list_all is_space pre \<and> list_all is_space post
      \<and> strip (ascii ''  @@a '') = replicate k at_sign @ normalize_username (ascii ''  @@a '')
      \<and> (strip (ascii ''  @@a '') = []
          \<or> (\<not> is_space (hd (strip (ascii ''  @@a '')))
              \<and> \<not> is_space (last (strip (ascii ''  @@a ''))))))
   \<and> \<not> startswith (normalize_username (ascii ''  @@a '')) (ascii ''@'')
   \<and> (normalize_username (ascii ''  @@a '') = spec_normalize (ascii ''  @@a '')
        \<longleftrightarrow> \<not> startswith (strip (ascii ''  @@a '')) (ascii ''@@''))"
proof -
  have 1: "normalize_username (ascii ''  @@a '') = ascii ''a''"
    by (simp add: load_eval)
  have 2: "strip (ascii ''  @@a '') = ascii ''@@a''"
    by (simp add: load_eval)
  from normalize_strips_every_at [of "ascii ''  @@a ''"] 1 2 show ?thesis
    by blast
qed

section \<open>Properties of the action primitives\<close>

lemmas io_defs = io_bind_def io_return_def io_raise_def try_except_def

lemma io_bind_return: "io_bind (io_return a) f = f a"
  by (rule ext) (simp add: io_defs)

lemma print_opt_simps:
  "print_opt page None = io_return ()" "print_opt page (Some msg) = print page msg"
  by (simp_all add: print_opt_def)

lemma follow_profile_shape:
  "follow_profile page u
     = on_profile page u (\<lambda>e. Some (CouldntLoadProfile u e)) (Some (ProfileHeaderDidNotLoad u))
         (\<lambda>e. Some (ExceptionTryingToFollow u e)) (click_follow page u)"
  by (simp add: follow_profile_def on_profile_def print_opt_simps cong: if_cong)

lemma is_user_following_me_shape:
  "is_user_following_me page u
     = on_profile page u (\<lambda>e. Some (CouldntLoadProfileForCheck u e)) None (\<lambda>e. None)
         (find_follows_you page u)"
  by (simp add: is_user_following_me_def on_profile_def print_opt_simps io_bind_return
      cong: if_cong)

lemma unfollow_profile_shape:
  "unfollow_profile page u
     = on_profile page u (\<lambda>e. Some (CouldntLoadProfileForUnfollow u e))
         (Some (HeaderDidntLoadForUnfollowing u))
         (\<lambda>e. Some (ExceptionWhileUnfollowing u e)) (click_following page u)"
  by (simp add: unfollow_profile_def on_profile_def print_opt_simps cong: if_cong)






lemma on_profile_body:
  "goto page (profile_url u) w = (Inr x, w1) \<Longrightarrow> wait_for_selector page Header w1 = (Inr y, w2)
   \<Longrightarrow> on_profile page u mg mh mb body w
       = try_except body is_Exception
           (\<lambda>e. io_bind (print_opt page (mb e)) (\<lambda>_. io_return False)) w2"
  by (simp add: on_profile_def io_defs)










lemma upt_0_1: "[0..<1] = [0]"
  by (simp add: upt_rec)

lemma follow_label:
  "str_in (ascii ''Follow'') (strip (ascii ''Follow''))"
  "\<not> str_in (ascii ''Following'') (strip (ascii ''Follow''))"
  "\<not> str_in (ascii ''Requested'') (strip (ascii ''Follow''))"
  by (simp_all add: strip_def lstrip_def rstrip_def is_space_def ascii_def)

lemma sim_print: "print (sim_page g h fs) msg w = (Inr (), w)"
  by (simp add: sim_page_def)

lemma sim_write_line: "write_line (sim_page g h fs) line w = (Inr (), w)"
  by (simp add: sim_page_def)

lemma sim_click_follow: "click_follow (sim_page g h fs) u w = (Inr True, w)"
  by (simp add: click_follow_def sim_page_def io_defs upt_0_1 follow_label)

lemma sim_click_following: "click_following (sim_page g None fs) u w = (Inr True, w)"
  by (simp add: click_following_def confirm_unfollow_def sim_page_def io_defs upt_0_1)

lemma profile_url_inj: "profile_url u = profile_url v \<longleftrightarrow> u = v"
  by (simp add: profile_url_def)

lemma sim_find_follows_you:
  "find_follows_you (sim_page g h fs) v (profile_url u) = (Inr (u \<in> set fs), profile_url u)"
  by (auto simp: find_follows_you_def sim_page_def io_defs profile_url_inj)

lemma sim_goto: "goto (sim_page None h fs) url w = (Inr (), url)"
  by (simp add: sim_page_def)


lemma sim_header: "wait_for_selector (sim_page g None fs) sel w = (Inr (), w)"
  by (simp add: sim_page_def)


lemma sim_follow_profile:
  "follow_profile (sim_page None None fs) u w = (Inr True, profile_url u)"
  by (simp add: follow_profile_shape on_profile_body [OF sim_goto sim_header]
      sim_click_follow io_defs)

lemma sim_is_user_following_me:
  "is_user_following_me (sim_page None None fs) u w = (Inr (u \<in> set fs), profile_url u)"
  by (simp add: is_user_following_me_shape on_profile_body [OF sim_goto sim_header]
      sim_find_follows_you io_defs)

lemma sim_unfollow_profile:
  "unfollow_profile (sim_page None None fs) u w = (Inr True, profile_url u)"
  by (simp add: unfollow_profile_shape on_profile_body [OF sim_goto sim_header]
      sim_click_following io_defs)




section \<open>Properties of the follow pass\<close>

lemmas ctl_defs = on_page_def log_action_def discard_def py_mod_def Let_def

lemma log_action_returns:
  "write_line env (entry (now_iso env (world s))) (world s) = (Inr x, w')
   \<Longrightarrow> log_action env entry s
       = (Inr (), s\<lparr>world := w', log := log s @ [entry (now_iso env (world s))]\<rparr>)"
  by (simp add: io_defs ctl_defs)

lemma log_action_raises:
  "write_line env (entry (now_iso env (world s))) (world s) = (Inl e, w')
   \<Longrightarrow> log_action env entry s = (Inl e, s\<lparr>world := w'\<rparr>)"
  by (simp add: io_defs ctl_defs)

lemma log_action_cases:
  assumes "log_action env entry s = (r, s')"
  shows "followed_set s' = followed_set s \<and> context_open s' = context_open s
       \<and> browser_open s' = browser_open s
       \<and> ((\<exists>e w. r = Inl e \<and> log s' = log s
              \<and> write_line env (entry (now_iso env (world s))) (world s) = (Inl e, w))
          \<or> (r = Inr () \<and> log s' = log s @ [entry (now_iso env (world s))]))"
  using assms
  by (cases "write_line env (entry (now_iso env (world s))) (world s)";
      cases "fst (write_line env (entry (now_iso env (world s))) (world s))")
     (auto simp: log_action_returns log_action_raises)

lemma on_page_cases:
  assumes "on_page m s = (r, s')"
  shows "\<exists>w'. m (world s) = (r, w') \<and> s' = s\<lparr>world := w'\<rparr>"
  using assms by (auto simp: on_page_def split: prod.splits)














lemma sim_sleep: "sleep (sim_page g h fs) lo hi w = (Inr (), w)"
  by (simp add: sim_page_def)

lemma sim_now_iso: "now_iso (sim_page g h fs) w = sim_ts"
  by (simp add: sim_page_def)


lemmas sim_run = sim_follow_profile sim_is_user_following_me sim_unfollow_profile sim_sleep
  sim_now_iso sim_print sim_write_line MIN_DELAY_BETWEEN_ACTIONS_def
  MAX_DELAY_BETWEEN_ACTIONS_def BATCH_PAUSE_def initial_def close_all_def playwright_stop_def












section \<open>Properties of the controller before the follow pass\<close>

lemma load_not_list: "\<not> isinstance_list d \<Longrightarrow> load_usernames d = Inl NotAnArray"
  by (cases d) (simp_all add: load_usernames_def parse_usernames_def)

lemma load_empty_list: "load_usernames (JList []) = Inl ListEmpty"
  by (simp add: load_usernames_def parse_usernames_def)

lemma dicts_are_not_strs:
  "xs \<noteq> [] \<Longrightarrow> list_all isinstance_dict xs \<Longrightarrow> \<not> list_all isinstance_str xs"
  by (cases xs; cases "hd xs") auto

lemma unusable_dict_username:
  "\<not> usable_username x \<Longrightarrow> filter (\<lambda>u. u \<noteq> []) (dict_username x) = []"
  by (cases x) (auto split: option.splits json.splits)

lemma unusable_dict_usernames:
  "\<forall>x\<in>set xs. \<not> usable_username x
   \<Longrightarrow> filter (\<lambda>u. u \<noteq> []) (concat (map dict_username xs)) = []"
  by (induction xs) (simp_all add: unusable_dict_username)

lemma load_no_usable_username:
  assumes "xs \<noteq> []" "list_all isinstance_dict xs" "\<forall>x\<in>set xs. \<not> usable_username x"
  shows "load_usernames (JList xs) = Inl NoUsernameField"
  using assms dicts_are_not_strs [OF assms(1,2)]
  by (simp add: load_usernames_def parse_usernames_def unusable_dict_usernames)

lemma load_blank_strings:
  assumes "xs \<noteq> []" "list_all isinstance_str xs"
    "\<forall>u\<in>set (concat (map str_items xs)). strip u = []"
  shows "load_usernames (JList xs) = Inr []"
proof -
  have "filter (\<lambda>u. strip u \<noteq> []) (concat (map str_items xs)) = []"
    using assms(3) by (simp add: filter_empty_conv)
  with assms(1,2) show ?thesis
    by (simp add: load_usernames_def parse_usernames_def fromkeys_def)
qed

lemma exits_on_load_error:
  "load_usernames d = Inl x
   \<Longrightarrow> follow_then_unfollow_loop fuel env (Parsed d) interval batch_size s
       = Some (Exited x, close_all s)"
  by (simp add: follow_then_unfollow_loop_def loop_block_def close_all_def playwright_stop_def)

text \<open>
  Claim C5. Input that is not a list ends in the not-an-array exit (FormatError), the
  empty list in the empty-list exit (EmptyListError), and a non-empty list of records
  none of which has a usable string \<open>username\<close> in the no-username exit
  (NoUsernamesError). In each case the function returns after closing context and
  browser: the log and the world are as they were, so no follow was attempted and
  nothing was logged.
\<close>

theorem list_errors_exit_before_follow_pass:
  "(\<not> isinstance_list d
      \<longrightarrow> follow_then_unfollow_loop fuel env (Parsed d) interval batch_size s
          = Some (Exited NotAnArray, close_all s))
   \<and> follow_then_unfollow_loop fuel env (Parsed (JList [])) interval batch_size s
       = Some (Exited ListEmpty, close_all s)
   \<and> (xs \<noteq> [] \<and> list_all isinstance_dict xs \<and> (\<forall>x\<in>set xs. \<not> usable_username x)
      \<longrightarrow> follow_then_unfollow_loop fuel env (Parsed (JList xs)) interval batch_size s
          = Some (Exited NoUsernameField, close_all s))
   \<and> log (close_all s) = log s \<and> world (close_all s) = world s
   \<and> \<not> context_open (close_all s) \<and> \<not> browser_open (close_all s)"
  by (simp add: exits_on_load_error load_not_list load_empty_list load_no_usable_username
      close_all_def)

text \<open>
  Claim C5, witness: the inputs \<open>3\<close>, \<open>[]\<close> and \<open>[{"id": 1}]\<close>.
\<close>

theorem list_errors_exit_before_follow_pass_witness:
  "follow_then_unfollow_loop 0 (sim_page None None []) (Parsed (JNum 3)) 3600 10 (initial [])
     = Some (Exited NotAnArray, close_all (initial []))
   \<and> follow_then_unfollow_loop 0 (sim_page None None []) (Parsed (JList [])) 3600 10 (initial [])
     = Some (Exited ListEmpty, close_all (initial []))
   \<and> follow_then_unfollow_loop 0 (sim_page None None [])
        (Parsed (JList [JDict [(ascii ''id'', JNum 1)]])) 3600 10 (initial [])
     = Some (Exited NoUsernameField, close_all (initial []))
   \<and> log (close_all (initial ([] :: pystr))) = []
   \<and> \<not> context_open (close_all (initial ([] :: pystr)))"
proof -
  have 1: "\<not> isinstance_list (JNum 3)" by simp
  have 2: "[JDict [(ascii ''id'', JNum 1)]] \<noteq> []
      \<and> list_all isinstance_dict [JDict [(ascii ''id'', JNum 1)]]
      \<and> (\<forall>x\<in>set [JDict [(ascii ''id'', JNum 1)]]. \<not> usable_username x)"
    by (simp add: ascii_def)
  have 3: "log (initial ([] :: pystr)) = []" by (simp add: initial_def)
  from list_errors_exit_before_follow_pass
         [of "JNum 3" 0 "sim_page None None []" 3600 10 "initial []"
             "[JDict [(ascii ''id'', JNum 1)]]"] 1 2 3
  show ?thesis by simp
qed

text \<open>
  Blank items. For a non-empty list of strings each of which is empty once its
  whitespace is trimmed, no list error is raised: the Target List is empty, and the
  function returns after the first test of the monitoring loop with nothing followed
  and nothing logged, for every batch size.
\<close>

theorem blank_strings_finish_at_once:
  assumes "xs \<noteq> []" and "list_all isinstance_str xs"
    and "\<forall>u\<in>set (concat (map str_items xs)). strip u = []"
  shows "load_usernames (JList xs) = Inr []
       \<and> follow_then_unfollow_loop (Suc fuel) env (Parsed (JList xs)) interval batch_size s
           = Some (Finished, close_all (s\<lparr>followed_set := []\<rparr>))
       \<and> log (close_all (s\<lparr>followed_set := []\<rparr>)) = log s
       \<and> world (close_all (s\<lparr>followed_set := []\<rparr>)) = world s
       \<and> \<not> context_open (close_all (s\<lparr>followed_set := []\<rparr>))
       \<and> \<not> browser_open (close_all (s\<lparr>followed_set := []\<rparr>))"
  using load_blank_strings [OF assms]
  by (simp add: follow_then_unfollow_loop_def loop_block_def monitoring_def io_defs fromkeys_def
      close_all_def playwright_stop_def)

text \<open>
  The input ["  "] is such a list.
\<close>

theorem blank_strings_finish_at_once_witness:
  "load_usernames (JList [JStr (ascii ''  '')]) = Inr []
   \<and> follow_then_unfollow_loop (Suc 0) (sim_page None None [])
        (Parsed (JList [JStr (ascii ''  '')])) 3600 10 (initial [])
      = Some (Finished, close_all (initial []))"
proof -
  have 1: "[JStr (ascii ''  '')] \<noteq> []" "list_all isinstance_str [JStr (ascii ''  '')]"
    by simp_all
  have 2: "\<forall>u\<in>set (concat (map str_items [JStr (ascii ''  '')])). strip u = []"
    by (simp add: strip_def lstrip_def rstrip_def is_space_def ascii_def)
  from blank_strings_finish_at_once [OF 1 2, of 0 "sim_page None None []" 3600 10 "initial []"]
  show ?thesis by (simp add: initial_def)
qed


section \<open>Properties of the monitoring loop\<close>

lemma keeps_on_page: "keeps_followed_set (on_page m)"
  by (auto simp: keeps_followed_set_def on_page_def split: prod.splits)

lemma keeps_log_action: "keeps_followed_set (log_action env entry)"
  unfolding keeps_followed_set_def using log_action_cases by blast

lemma keeps_return: "keeps_followed_set (io_return a)"
  by (simp add: keeps_followed_set_def io_defs)

lemma keeps_bind:
  "keeps_followed_set m \<Longrightarrow> (\<And>a. keeps_followed_set (f a)) \<Longrightarrow> keeps_followed_set (io_bind m f)"
  unfolding keeps_followed_set_def io_bind_def
  by (auto split: prod.splits sum.splits)

lemma keeps_try:
  "keeps_followed_set m \<Longrightarrow> (\<And>e. keeps_followed_set (h e))
   \<Longrightarrow> keeps_followed_set (try_except m c h)"
  unfolding keeps_followed_set_def try_except_def
  by (auto split: prod.splits sum.splits if_splits)

lemma keepsD: "keeps_followed_set m \<Longrightarrow> m s = (r, s') \<Longrightarrow> followed_set s' = followed_set s"
  by (auto simp: keeps_followed_set_def)

lemma check_user_cases:
  assumes "check_user env u s = (r, s')"
  shows "followed_set s' = followed_set s
       \<or> (r = Inr () \<and> followed_set s' = removeAll u (followed_set s)
          \<and> (\<exists>w1 w2. is_user_following_me env u (world s) = (Inr True, w1)
                \<and> unfollow_profile env u w1 = (Inr True, w2)))"
proof (cases "is_user_following_me env u (world s)")
  case (Pair r1 w1)
  note chk = this
  show ?thesis
  proof (cases "r1 = Inr True")
    case False
    have "followed_set s' = followed_set s"
    proof (cases r1)
      case (Inl e)
      with chk assms show ?thesis by (auto simp: check_user_def io_defs on_page_def)
    next
      case (Inr fm)
      with False have "\<not> fm" by simp
      with chk Inr assms have "log_action env (CheckFollowback u False) (s\<lparr>world := w1\<rparr>) = (r, s')"
        by (auto simp: check_user_def io_defs on_page_def)
      from keepsD [OF keeps_log_action this] show ?thesis by simp
    qed
    then show ?thesis by simp
  next
    case True
    note r1 = this
    obtain r2 w2 where unf: "unfollow_profile env u w1 = (r2, w2)"
      by (cases "unfollow_profile env u w1")
    show ?thesis
    proof (cases r2)
      case (Inl e)
      with chk r1 unf assms have "followed_set s' = followed_set s"
        by (auto simp: check_user_def io_defs on_page_def)
      then show ?thesis by simp
    next
      case (Inr unfollowed)
      obtain r3 s3 where lg:
        "log_action env (UnfollowOnFollowback u unfollowed) (s\<lparr>world := w2\<rparr>) = (r3, s3)"
        by (cases "log_action env (UnfollowOnFollowback u unfollowed) (s\<lparr>world := w2\<rparr>)")
      from keepsD [OF keeps_log_action lg] have fs3: "followed_set s3 = followed_set s" by simp
      show ?thesis
      proof (cases r3)
        case (Inl e)
        with chk r1 unf Inr lg assms have "s' = s3"
          by (auto simp: check_user_def io_defs on_page_def)
        with fs3 show ?thesis by simp
      next
        case (Inr x)
        show ?thesis
        proof (cases unfollowed)
          case False
          with chk r1 unf \<open>r2 = Inr unfollowed\<close> lg Inr assms have "s' = s3"
            by (auto simp: check_user_def io_defs on_page_def)
          with fs3 show ?thesis by simp
        next
          case True
          with chk r1 unf \<open>r2 = Inr unfollowed\<close> lg Inr assms
          have "r = Inr () \<and> followed_set s' = removeAll u (followed_set s3)"
            by (auto simp: check_user_def io_defs on_page_def discard_def)
          with fs3 chk r1 unf \<open>r2 = Inr unfollowed\<close> True show ?thesis by auto
        qed
      qed
    qed
  qed
qed

lemma monitor_user_cases:
  assumes "monitor_user env u s = (r, s')"
  shows "followed_set s' = followed_set s
       \<or> (followed_set s' = removeAll u (followed_set s)
          \<and> (\<exists>w1 w2. is_user_following_me env u (world s) = (Inr True, w1)
                \<and> unfollow_profile env u w1 = (Inr True, w2)))"
proof -
  let ?h = "\<lambda>e. io_bind (on_page (print env (ErrorCheckingUnfollowing u e))) (\<lambda>_.
                log_action env (ErrorEntry u (exn_str e)))"
  have kh: "keeps_followed_set (?h e)" for e
    by (intro keeps_bind keeps_on_page keeps_log_action)
  obtain r1 s1 where body: "check_user env u s = (r1, s1)" by (cases "check_user env u s")
  obtain r2 s2 where tr: "try_except (check_user env u) is_Exception ?h s = (r2, s2)"
    by (cases "try_except (check_user env u) is_Exception ?h s")
  have fs2: "followed_set s2 = followed_set s1"
  proof (cases r1)
    case (Inl e)
    show ?thesis
    proof (cases "is_Exception e")
      case True
      with body Inl tr have "?h e s1 = (r2, s2)" by (simp add: try_except_def)
      from keepsD [OF kh this] show ?thesis .
    next
      case False
      with body Inl tr show ?thesis by (simp add: try_except_def)
    qed
  next
    case (Inr x)
    with body tr show ?thesis by (simp add: try_except_def)
  qed
  have "followed_set s' = followed_set s2"
  proof (cases r2)
    case (Inl e)
    with tr assms show ?thesis by (simp add: monitor_user_def io_bind_def)
  next
    case (Inr x)
    with tr assms have "on_page (sleep env 8 18) s2 = (r, s')"
      by (simp add: monitor_user_def io_bind_def)
    from keepsD [OF keeps_on_page this] show ?thesis .
  qed
  with fs2 check_user_cases [OF body] show ?thesis by auto
qed

lemma monitor_users_shrinks:
  assumes "monitor_users env us s = (r, s')"
  shows "set (followed_set s') \<subseteq> set (followed_set s)
       \<and> length (followed_set s') \<le> length (followed_set s)
       \<and> (\<forall>x. x \<in> set (followed_set s) \<and> x \<notin> set (followed_set s')
            \<longrightarrow> x \<in> set us
              \<and> (\<exists>w w1 w2. is_user_following_me env x w = (Inr True, w1)
                    \<and> unfollow_profile env x w1 = (Inr True, w2)))"
  using assms
proof (induction us arbitrary: s)
  case Nil
  then show ?case by (simp add: io_defs)
next
  case (Cons u rest)
  obtain r1 s1 where 1: "monitor_user env u s = (r1, s1)" by (cases "monitor_user env u s")
  have step: "set (followed_set s1) \<subseteq> set (followed_set s)
       \<and> length (followed_set s1) \<le> length (followed_set s)
       \<and> (\<forall>x. x \<in> set (followed_set s) \<and> x \<notin> set (followed_set s1)
            \<longrightarrow> x = u
              \<and> (\<exists>w w1 w2. is_user_following_me env x w = (Inr True, w1)
                    \<and> unfollow_profile env x w1 = (Inr True, w2)))"
  proof -
    from monitor_user_cases [OF 1] show ?thesis
    proof
      assume "followed_set s1 = followed_set s"
      then show ?thesis by simp
    next
      assume rm: "followed_set s1 = removeAll u (followed_set s)
          \<and> (\<exists>w1 w2. is_user_following_me env u (world s) = (Inr True, w1)
                \<and> unfollow_profile env u w1 = (Inr True, w2))"
      then have "\<exists>w w1 w2. is_user_following_me env u w = (Inr True, w1)
                    \<and> unfollow_profile env u w1 = (Inr True, w2)"
        by blast
      moreover have "length (followed_set s1) \<le> length (followed_set s)"
        using rm by (simp add: length_removeAll_less_eq)
      ultimately show ?thesis using rm by auto
    qed
  qed
  show ?case
  proof (cases r1)
    case (Inl e)
    with 1 Cons.prems have "s' = s1" by (simp add: io_defs)
    with step show ?thesis by auto
  next
    case (Inr x)
    with 1 Cons.prems have "monitor_users env rest s1 = (r, s')" by (simp add: io_defs)
    from Cons.IH [OF this] step show ?thesis
      by (auto 0 3 intro: order_trans)
  qed
qed

lemma monitor_pass_shrinks:
  assumes "monitor_pass env interval s = (r, s')"
  shows "set (followed_set s') \<subseteq> set (followed_set s)
       \<and> length (followed_set s') \<le> length (followed_set s)
       \<and> (\<forall>x. x \<in> set (followed_set s) \<and> x \<notin> set (followed_set s')
            \<longrightarrow> (\<exists>w w1 w2. is_user_following_me env x w = (Inr True, w1)
                    \<and> unfollow_profile env x w1 = (Inr True, w2)))"
proof -
  obtain r1 s1 where 1: "monitor_users env (followed_set s) s = (r1, s1)"
    by (cases "monitor_users env (followed_set s) s")
  have "followed_set s' = followed_set s1"
    using assms 1
    by (auto simp: monitor_pass_def io_defs ctl_defs split: prod.splits sum.splits)
  with monitor_users_shrinks [OF 1] show ?thesis by auto
qed

lemma passes_shrink:
  "passes k env interval s = Some s'
   \<Longrightarrow> set (followed_set s') \<subseteq> set (followed_set s)
       \<and> length (followed_set s') \<le> length (followed_set s)"
proof (induction k arbitrary: s)
  case 0
  then show ?case by simp
next
  case (Suc k)
  then obtain x s1 where 1: "monitor_pass env interval s = (Inr x, s1)"
    and 2: "passes k env interval s1 = Some s'"
    by (auto split: if_splits prod.splits sum.splits)
  from monitor_pass_shrinks [OF 1] Suc.IH [OF 2] show ?case
    by (auto intro: order_trans)
qed

lemma passes_add:
  "passes (j + k) env interval s
     = (case passes j env interval s of None \<Rightarrow> None | Some sj \<Rightarrow> passes k env interval sj)"
  by (induction j arbitrary: s) (auto split: prod.splits sum.splits)

lemma monitor_loop_passes:
  "monitor_loop fuel env interval s = Some (Inr x, s')
   \<Longrightarrow> \<exists>k<fuel. passes k env interval s = Some s' \<and> followed_set s' = []"
proof (induction fuel arbitrary: s)
  case 0
  then show ?case by simp
next
  case (Suc fuel)
  show ?case
  proof (cases "followed_set s = []")
    case True
    with Suc.prems show ?thesis by (intro exI [of _ 0]) simp
  next
    case False
    with Suc.prems obtain y s1 where 1: "monitor_pass env interval s = (Inr y, s1)"
      and 2: "monitor_loop fuel env interval s1 = Some (Inr x, s')"
      by (auto split: prod.splits sum.splits)
    from Suc.IH [OF 2] obtain k where "k < fuel" "passes k env interval s1 = Some s'"
      "followed_set s' = []" by blast
    with 1 False show ?thesis by (intro exI [of _ "Suc k"]) simp
  qed
qed


lemma a_neq_b: "ascii ''a'' \<noteq> ascii ''b''" "ascii ''b'' \<noteq> ascii ''a''"
  by (simp_all add: ascii_def)

lemmas monitor_eval = monitor_pass_def monitor_user_def check_user_def io_defs ctl_defs sim_run
  a_neq_b

lemma sim_monitor_user_a:
  "monitor_user (sim_page None None [ascii ''a'']) (ascii ''a'')
     \<lparr>world = [], log = [], context_open = True, browser_open = True,
      followed_set = [ascii ''a'', ascii ''b'']\<rparr>
   = (Inr (),
      \<lparr>world = profile_url (ascii ''a''),
       log = [UnfollowOnFollowback (ascii ''a'') True sim_ts],
       context_open = True, browser_open = True, followed_set = [ascii ''b'']\<rparr>)"
  by (simp add: monitor_eval)

lemma sim_monitor_pass_a_b:
  "monitor_pass (sim_page None None [ascii ''a'']) 3600
     \<lparr>world = [], log = [], context_open = True, browser_open = True,
      followed_set = [ascii ''a'', ascii ''b'']\<rparr>
   = (Inr (),
      \<lparr>world = profile_url (ascii ''b''),
       log = [UnfollowOnFollowback (ascii ''a'') True sim_ts,
              CheckFollowback (ascii ''b'') False sim_ts],
       context_open = True, browser_open = True, followed_set = [ascii ''b'']\<rparr>)"
  by (simp add: monitor_eval)

lemma sim_monitor_pass_b:
  "monitor_pass (sim_page None None [ascii ''a'']) 3600
     \<lparr>world = profile_url (ascii ''b''),
       log = [UnfollowOnFollowback (ascii ''a'') True sim_ts,
              CheckFollowback (ascii ''b'') False sim_ts],
       context_open = True, browser_open = True, followed_set = [ascii ''b'']\<rparr>
   = (Inr (),
      \<lparr>world = profile_url (ascii ''b''),
       log = [UnfollowOnFollowback (ascii ''a'') True sim_ts,
              CheckFollowback (ascii ''b'') False sim_ts,
              CheckFollowback (ascii ''b'') False sim_ts],
       context_open = True, browser_open = True, followed_set = [ascii ''b'']\<rparr>)"
  by (simp add: monitor_eval)

text \<open>
  Claim C2. Handling one user changes \<open>followed_set\<close> only by removing that user, and
  only when \<open>is_user_following_me\<close> returned true and the \<open>unfollow_profile\<close> that
  followed it returned true; every user missing after a pass was removed that way. From
  one turn of the monitoring loop to any later one the working set can only lose
  members: a removed username does not come back and the size does not grow.
\<close>

theorem working_set_only_shrinks:
  "(monitor_user env u s = (r, s') \<and> followed_set s' \<noteq> followed_set s
      \<longrightarrow> followed_set s' = removeAll u (followed_set s)
          \<and> (\<exists>w1 w2. is_user_following_me env u (world s) = (Inr True, w1)
                \<and> unfollow_profile env u w1 = (Inr True, w2)))
   \<and> (monitor_pass env interval s = (r, s')
        \<and> x \<in> set (followed_set s) \<and> x \<notin> set (followed_set s')
      \<longrightarrow> (\<exists>w w1 w2. is_user_following_me env x w = (Inr True, w1)
                \<and> unfollow_profile env x w1 = (Inr True, w2)))
   \<and> (passes j env interval s0 = Some sj \<and> passes (j + k) env interval s0 = Some sk
      \<longrightarrow> set (followed_set sk) \<subseteq> set (followed_set sj)
          \<and> length (followed_set sk) \<le> length (followed_set sj))"
proof -
  have "set (followed_set sk) \<subseteq> set (followed_set sj)
          \<and> length (followed_set sk) \<le> length (followed_set sj)"
    if hyp: "passes j env interval s0 = Some sj" "passes (j + k) env interval s0 = Some sk"
  proof -
    from hyp have "passes k env interval sj = Some sk" by (simp add: passes_add)
    then show ?thesis by (rule passes_shrink)
  qed
  then show ?thesis
    using monitor_user_cases [of env u s r s'] monitor_pass_shrinks [of env interval s r s']
    by blast
qed

text \<open>
  Claim C2, witness: "a" follows back and "b" does not. Handling "a" removes it after a
  check and an unfollow that both returned true; after one turn and after two the
  working set is ["b"].
\<close>

theorem working_set_only_shrinks_witness:
  "monitor_user (sim_page None None [ascii ''a'']) (ascii ''a'')
     \<lparr>world = [], log = [], context_open = True, browser_open = True,
      followed_set = [ascii ''a'', ascii ''b'']\<rparr>
   = (Inr (),
      \<lparr>world = profile_url (ascii ''a''),
       log = [UnfollowOnFollowback (ascii ''a'') True sim_ts],
       context_open = True, browser_open = True, followed_set = [ascii ''b'']\<rparr>)
   \<and> [ascii ''b''] = removeAll (ascii ''a'') [ascii ''a'', ascii ''b'']
   \<and> (\<exists>w1 w2. is_user_following_me (sim_page None None [ascii ''a'']) (ascii ''a'') []
                 = (Inr True, w1)
          \<and> unfollow_profile (sim_page None None [ascii ''a'']) (ascii ''a'') w1 = (Inr True, w2))
   \<and> (\<exists>s1 s2. passes (Suc 0) (sim_page None None [ascii ''a'']) 3600
          \<lparr>world = [], log = [], context_open = True, browser_open = True,
           followed_set = [ascii ''a'', ascii ''b'']\<rparr> = Some s1
        \<and> passes (Suc 0 + Suc 0) (sim_page None None [ascii ''a'']) 3600
          \<lparr>world = [], log = [], context_open = True, browser_open = True,
           followed_set = [ascii ''a'', ascii ''b'']\<rparr> = Some s2
        \<and> followed_set s1 = [ascii ''b''] \<and> followed_set s2 = [ascii ''b'']
        \<and> set (followed_set s2) \<subseteq> set (followed_set s1))"
proof -
  let ?env = "sim_page None None [ascii ''a'']"
  let ?s0 = "\<lparr>world = [], log = [], context_open = True, browser_open = True,
      followed_set = [ascii ''a'', ascii ''b'']\<rparr> :: pystr state"
  let ?s1 = "\<lparr>world = profile_url (ascii ''b''),
       log = [UnfollowOnFollowback (ascii ''a'') True sim_ts,
              CheckFollowback (ascii ''b'') False sim_ts],
       context_open = True, browser_open = True, followed_set = [ascii ''b'']\<rparr> :: pystr state"
  let ?s2 = "\<lparr>world = profile_url (ascii ''b''),
       log = [UnfollowOnFollowback (ascii ''a'') True sim_ts,
              CheckFollowback (ascii ''b'') False sim_ts,
              CheckFollowback (ascii ''b'') False sim_ts],
       context_open = True, browser_open = True, followed_set = [ascii ''b'']\<rparr> :: pystr state"
  have p1: "passes (Suc 0) ?env 3600 ?s0 = Some ?s1"
    by (simp add: sim_monitor_pass_a_b)
  have p2: "passes (Suc 0 + Suc 0) ?env 3600 ?s0 = Some ?s2"
    by (simp add: sim_monitor_pass_a_b sim_monitor_pass_b)
  note inst = working_set_only_shrinks [of ?env "ascii ''a''" ?s0 "Inr ()"
      "\<lparr>world = profile_url (ascii ''a''),
       log = [UnfollowOnFollowback (ascii ''a'') True sim_ts],
       context_open = True, browser_open = True, followed_set = [ascii ''b'']\<rparr>"
      3600 "ascii ''a''" "Suc 0" ?s0 ?s1 "Suc 0" ?s2]
  have rm: "[ascii ''b''] = removeAll (ascii ''a'') [ascii ''a'', ascii ''b'']
   \<and> (\<exists>w1 w2. is_user_following_me ?env (ascii ''a'') [] = (Inr True, w1)
          \<and> unfollow_profile ?env (ascii ''a'') w1 = (Inr True, w2))"
    using inst sim_monitor_user_a by (simp add: a_neq_b)
  have "set (followed_set ?s2) \<subseteq> set (followed_set ?s1)"
    using inst p1 p2 by simp
  with p1 p2 have "\<exists>s1 s2. passes (Suc 0) ?env 3600 ?s0 = Some s1
        \<and> passes (Suc 0 + Suc 0) ?env 3600 ?s0 = Some s2
        \<and> followed_set s1 = [ascii ''b''] \<and> followed_set s2 = [ascii ''b'']
        \<and> set (followed_set s2) \<subseteq> set (followed_set s1)"
    by (intro exI [of _ ?s1] exI [of _ ?s2]) simp
  with rm sim_monitor_user_a show ?thesis by blast
qed


section \<open>Runs of the whole controller\<close>

lemma load_at: "load_usernames (JList [JStr (ascii ''@'')]) = Inr [[]]"
  by (simp add: load_eval)

lemmas run_eval = follow_then_unfollow_loop_def loop_block_def monitoring_def fromkeys_def
  is_KeyboardInterrupt_def zero_division_def

text \<open>
  Claim C10 at the input ["@"]. The item normalizes to the empty string, but the
  all-strings branch keeps it (it tests \<open>u.strip()\<close>): the Target List is [""], one
  follow is attempted and logged for the empty username, and monitoring runs a pass
  over it. For blank items the run is as the claim says, see above.
\<close>

theorem at_sign_item_is_followed:
  "normalize_username (ascii ''@'') = []
   \<and> load_usernames (JList [JStr (ascii ''@'')]) = Inr [[]]
   \<and> follow_then_unfollow_loop (Suc (Suc 0)) (sim_page None None [[]])
        (Parsed (JList [JStr (ascii ''@'')])) 3600 10 (initial [])
     = Some (Finished,
        \<lparr>world = profile_url [],
         log = [FollowAttempt [] True 1 1 sim_ts, UnfollowOnFollowback [] True sim_ts],
         context_open = False, browser_open = False, followed_set = []\<rparr>)"
proof -
  have "normalize_username (ascii ''@'') = []"
    by (simp add: load_eval)
  moreover have "follow_then_unfollow_loop (Suc (Suc 0)) (sim_page None None [[]])
        (Parsed (JList [JStr (ascii ''@'')])) 3600 10 (initial [])
     = Some (Finished,
        \<lparr>world = profile_url [],
         log = [FollowAttempt [] True 1 1 sim_ts, UnfollowOnFollowback [] True sim_ts],
         context_open = False, browser_open = False, followed_set = []\<rparr>)"
    by (simp add: run_eval load_at monitor_eval)
  ultimately show ?thesis using load_at by simp
qed












end
